theory Spec2Isabelle
  imports Main
begin

section \<open>JavaScript values used by the transport\<close>

text \<open>
  The model follows \<^verbatim>\<open>stdioKernelTransport.ts\<close>. A field of type \<^verbatim>\<open>T | null\<close> can
  hold \<^verbatim>\<open>null\<close> or an object, and a read of a missing array slot gives \<^verbatim>\<open>undefined\<close>;
  both absent values are kept apart because \<^verbatim>\<open>isNotNull\<close> compares with
  \<^verbatim>\<open>undefined\<close> only.
\<close>

datatype 'a js_ref = Undefined | Null | Ref 'a

text \<open>
  What a \<^verbatim>\<open>throw\<close> or a \<^verbatim>\<open>reject(...)\<close> carries: nothing at all (\<^verbatim>\<open>reject()\<close>), the
  runtime's TypeError, a string, or whatever the decoder of a line throws.
\<close>

datatype reason = NoDetail | TypeError | Message string | DecodeError string

datatype completion = Normal | Throw reason

datatype 'a promise = Pending | Fulfilled 'a | Rejected reason

text \<open>A promise keeps its first settlement; later calls of resolve or reject are ignored.\<close>

definition settle :: "'a promise \<Rightarrow> 'a promise \<Rightarrow> 'a promise" where
  "settle outcome p = (if p = Pending then outcome else p)"

text \<open>Member access \<^verbatim>\<open>obj.field\<close> throws a TypeError on \<^verbatim>\<open>null\<close> and \<^verbatim>\<open>undefined\<close>.\<close>

definition deref :: "'a js_ref \<Rightarrow> reason + 'a" where
  "deref obj = (case obj of Ref x \<Rightarrow> Inr x | Null \<Rightarrow> Inl TypeError | Undefined \<Rightarrow> Inl TypeError)"

datatype js_number = NaN | Num int

subsection \<open>Numbers and strings\<close>

definition decimal_digits :: string where
  "decimal_digits = ''0123456789''"

fun string_of_nat :: "nat \<Rightarrow> string" where
  "string_of_nat n =
     (if n < 10 then [decimal_digits ! n]
      else string_of_nat (n div 10) @ [decimal_digits ! (n mod 10)])"

declare string_of_nat.simps [simp del]

text \<open>The string a template literal \<^verbatim>\<open>`${x}`\<close> gives for a number.\<close>

definition number_to_string :: "js_number \<Rightarrow> string" where
  "number_to_string x =
     (case x of NaN \<Rightarrow> ''NaN''
      | Num i \<Rightarrow> (if i < 0 then CHR ''-'' # string_of_nat (nat (- i)) else string_of_nat (nat i)))"

definition digit_table :: "(char \<times> nat) list" where
  "digit_table =
     [(CHR ''0'', 0), (CHR ''1'', 1), (CHR ''2'', 2), (CHR ''3'', 3), (CHR ''4'', 4),
      (CHR ''5'', 5), (CHR ''6'', 6), (CHR ''7'', 7), (CHR ''8'', 8), (CHR ''9'', 9),
      (CHR ''a'', 10), (CHR ''b'', 11), (CHR ''c'', 12), (CHR ''d'', 13), (CHR ''e'', 14),
      (CHR ''f'', 15), (CHR ''A'', 10), (CHR ''B'', 11), (CHR ''C'', 12), (CHR ''D'', 13),
      (CHR ''E'', 14), (CHR ''F'', 15)]"

definition is_digit :: "nat \<Rightarrow> char \<Rightarrow> bool" where
  "is_digit radix c = (case map_of digit_table c of None \<Rightarrow> False | Some d \<Rightarrow> d < radix)"

definition digit_value :: "char \<Rightarrow> nat" where
  "digit_value c = (case map_of digit_table c of None \<Rightarrow> 0 | Some d \<Rightarrow> d)"

definition is_space :: "char \<Rightarrow> bool" where
  "is_space c = (c \<in> set [CHR '' '', CHR 0x09, CHR 0x0A, CHR 0x0B, CHR 0x0C, CHR 0x0D])"

definition to_string :: "string js_ref \<Rightarrow> string" where
  "to_string v = (case v of Ref s \<Rightarrow> s | Null \<Rightarrow> ''null'' | Undefined \<Rightarrow> ''undefined'')"

text \<open>
  The builtin \<^verbatim>\<open>parseInt(x)\<close> with no radix: the argument is turned into a string,
  leading white space is skipped, a sign is read, a prefix \<^verbatim>\<open>0x\<close> or \<^verbatim>\<open>0X\<close> selects
  radix 16, and the longest run of digits is the value; no digit gives \<^verbatim>\<open>NaN\<close>.
  Characters are 8-bit here, so only the ASCII white space is skipped, and the value is
  exact, which a JavaScript number is below \<open>2 ^ 53\<close>.
\<close>

definition parseInt :: "string js_ref \<Rightarrow> js_number" where
  "parseInt v =
     (let s = dropWhile is_space (to_string v);
          negative = (s \<noteq> [] \<and> hd s = CHR ''-'');
          s1 = (if s \<noteq> [] \<and> (hd s = CHR ''-'' \<or> hd s = CHR ''+'') then tl s else s);
          hex = (take 2 s1 = ''0x'' \<or> take 2 s1 = ''0X'');
          radix = (if hex then 16 else 10);
          s2 = (if hex then drop 2 s1 else s1);
          z = takeWhile (is_digit radix) s2;
          m = foldl (\<lambda>a c. a * radix + digit_value c) 0 z
      in if z = [] then NaN else Num (if negative then - int m else int m))"

subsection \<open>Arrays\<close>

text \<open>
  \<^verbatim>\<open>xs.indexOf(x)\<close>: the first index holding \<open>x\<close>, or \<open>-1\<close>. Strings are compared by
  value and functions by identity.
\<close>

fun indexOf :: "'a list \<Rightarrow> 'a \<Rightarrow> int" where
  "indexOf [] x = - 1"
| "indexOf (y # ys) x =
     (if y = x then 0 else (let i = indexOf ys x in if i < 0 then - 1 else i + 1))"

text \<open>\<^verbatim>\<open>xs[i]\<close> read: a slot past the end is \<^verbatim>\<open>undefined\<close>.\<close>

definition element :: "'a list \<Rightarrow> nat \<Rightarrow> 'a js_ref" where
  "element xs i = (if i < length xs then Ref (xs ! i) else Undefined)"

text \<open>
  \<^verbatim>\<open>xs[i] = v\<close> for \<open>i \<le> length xs\<close>: a write one past the end extends the array. (A
  write further out would leave holes; the transport never does one, since it writes at
  an index \<open>indexOf\<close> returned and at the index after it.)
\<close>

definition assign :: "'a list \<Rightarrow> nat \<Rightarrow> 'a \<Rightarrow> 'a list" where
  "assign xs i v = (if i < length xs then xs[i := v] else xs @ [v])"

text \<open>\<^verbatim>\<open>xs.splice(i, 1)\<close>: remove the element at index \<open>i\<close>.\<close>

definition splice1 :: "nat \<Rightarrow> 'a list \<Rightarrow> 'a list" where
  "splice1 i xs = take i xs @ drop (Suc i) xs"

text \<open>
  Arrays are objects: the caller of the transport and the transport may hold the same
  array. The store lists the string arrays by address; a new array gets the next address.
\<close>

type_synonym array_ref = nat
type_synonym heap = "string list list"

definition lookup :: "heap \<Rightarrow> array_ref \<Rightarrow> string list option" where
  "lookup h a = (if a < length h then Some (h ! a) else None)"

definition alloc :: "heap \<Rightarrow> string list \<Rightarrow> array_ref \<times> heap" where
  "alloc h xs = (length h, h @ [xs])"

definition store :: "heap \<Rightarrow> array_ref \<Rightarrow> string list \<Rightarrow> heap" where
  "store h a xs = h[a := xs]"

section \<open>Ephemeral port allocation\<close>

text \<open>
  \<^verbatim>\<open>findFreePort\<close> listens on port 0 and registers three one-shot handlers. What the
  socket does is the environment's choice: the model takes the events the server emits,
  in order, and returns the state of the promise after them.
\<close>

datatype server_event = Listening nat | Close | Error string

record probe =
  port :: "nat option"
  onListening :: bool
  onClose :: bool
  onError :: bool
  outcome :: "nat promise"

definition probe_start :: probe where
  "probe_start = \<lparr>port = None, onListening = True, onClose = True, onError = True,
     outcome = Pending\<rparr>"

fun emit :: "probe \<Rightarrow> server_event \<Rightarrow> probe" where
  "emit s (Listening p) =
     (if onListening s then s\<lparr>port := Some p, onListening := False\<rparr> else s)"
| "emit s Close =
     (if onClose s then
        (case port s of
           None \<Rightarrow> s\<lparr>onClose := False,
                     outcome := settle (Rejected (Message ''Can't get port'')) (outcome s)\<rparr>
         | Some p \<Rightarrow> s\<lparr>onClose := False, outcome := settle (Fulfilled p) (outcome s)\<rparr>)
      else s)"
| "emit s (Error e) =
     (if onError s then
        s\<lparr>onError := False, outcome := settle (Rejected (Message e)) (outcome s)\<rparr>
      else s)"

definition findFreePort :: "server_event list \<Rightarrow> nat promise" where
  "findFreePort evs = outcome (foldl emit probe_start evs)"

section \<open>The transport\<close>

subsection \<open>Data\<close>

text \<open>
  The event discriminants come from the contracts module: two reserved constants and any
  other string. An envelope is what \<^verbatim>\<open>parse\<close> returns for a line, read at the type
  \<^verbatim>\<open>KernelEventEnvelope\<close> the source casts it to; of the payload only the
  \<^verbatim>\<open>message\<close> field is ever read, at the type \<^verbatim>\<open>DiagnosticLogEntryProduced\<close>.
\<close>

datatype event_type = KernelReadyType | DiagnosticLogEntryProducedType | OtherEventType string

record kernel_event =
  message :: string

record envelope =
  eventType :: event_type
  event :: kernel_event

text \<open>
  An observer is a function object, compared by identity: the listener the constructor
  creates, or a client's callback, named by a number. What a client's callback does
  while it is being notified is a sequence of statements: calls back into the transport,
  which dispose the subscription handle of a client callback or subscribe one, and
  \<^verbatim>\<open>throw\<close>, which ends the callback and leaves it through its caller. The
  listener's handle is local to the constructor, so no client can dispose it or subscribe
  the listener again.
\<close>

datatype observer = ReadySubscriber | Client nat

datatype action = DisposeHandle nat | Subscribe nat | Raise reason

type_synonym callbacks = "nat \<Rightarrow> envelope \<Rightarrow> action list"

record child_process =
  pid :: nat
  spawnCommand :: string
  spawnArgs :: "string list"
  cwd :: string
  stdin :: "string list"
  killed :: bool

record process_start =
  command :: string
  args :: array_ref
  workingDirectory :: string

text \<open>
  The fields of the class, the lines appended to the diagnostic sink, and four
  observations that are not fields: how often \<^verbatim>\<open>resolve\<close> of the readiness promise was
  called, which observer was called with which envelope, which envelopes the line handler
  decoded, and for which of them it returned instead of throwing.
\<close>

record transport =
  childProcess :: "child_process js_ref"
  readyPromise :: "unit promise"
  subscribers :: "observer list"
  httpPort :: js_number
  diagnosticChannel :: "string list"
  resolveCalls :: nat
  notified :: "(observer \<times> envelope) list"
  handled :: "envelope list"
  returned :: "envelope list"

definition appendLine :: "string \<Rightarrow> transport \<Rightarrow> transport" where
  "appendLine s st = st\<lparr>diagnosticChannel := diagnosticChannel st @ [s]\<rparr>"

subsection \<open>Argument negotiation\<close>

definition port_flag :: string where
  "port_flag = ''--http-port''"

definition port_range_flag :: string where
  "port_range_flag = ''--http-port-range''"

definition deprecation_notice :: string where
  "deprecation_notice = ''the --http-port-range command option is not supported in vscode extension, remove if from settings. The kernel will start with --http-port option isntead.''"

definition array_assign :: "heap \<Rightarrow> array_ref \<Rightarrow> nat \<Rightarrow> string \<Rightarrow> heap" where
  "array_assign h a i v = store h a (assign (h ! a) i v)"

definition array_push :: "heap \<Rightarrow> array_ref \<Rightarrow> string \<Rightarrow> heap" where
  "array_push h a v = store h a (h ! a @ [v])"

text \<open>
  \<^verbatim>\<open>configureHttpArgs(args)\<close>, given the events of the port probe it may await. The
  spread \<^verbatim>\<open>[...args]\<close> allocates the array \<open>newArgs\<close>; every later write goes to that
  address. The result is the promise the async function returns: pending for ever when the
  probe never settles, rejected when the probe is (or when \<open>args\<close> is no array).
\<close>

definition configureHttpArgs ::
  "server_event list \<Rightarrow> array_ref \<Rightarrow> heap \<times> transport \<Rightarrow> array_ref promise \<times> heap \<times> transport" where
  "configureHttpArgs evs a hs =
     (case hs of (h, st) \<Rightarrow>
        (case lookup h a of
           None \<Rightarrow> (Rejected TypeError, h, st)
         | Some xs \<Rightarrow>
             (case alloc h xs of (newArgs, h1) \<Rightarrow>
                (let index = indexOf (h1 ! newArgs) port_flag in
                 if index < 0 then
                   (let index = indexOf (h1 ! newArgs) port_range_flag in
                    case findFreePort evs of
                      Pending \<Rightarrow> (Pending, h1, st)
                    | Rejected r \<Rightarrow> (Rejected r, h1, st)
                    | Fulfilled p \<Rightarrow>
                        (let st1 = st\<lparr>httpPort := Num (int p)\<rparr> in
                         if index > 0 then
                           (let st2 = appendLine deprecation_notice st1;
                                h2 = array_assign h1 newArgs (nat index) port_flag;
                                h3 = array_assign h2 newArgs (nat index + 1)
                                       (number_to_string (httpPort st2))
                            in (Fulfilled newArgs, h3, st2))
                         else
                           (let h2 = array_push h1 newArgs port_flag;
                                h3 = array_push h2 newArgs (number_to_string (httpPort st1))
                            in (Fulfilled newArgs, h3, st1))))
                 else
                   (Fulfilled newArgs, h1,
                    st\<lparr>httpPort := parseInt (element (h1 ! newArgs) (nat index + 1))\<rparr>)))))"

subsection \<open>Subscriptions and line handling\<close>

definition subscribeToKernelEvents :: "observer \<Rightarrow> transport \<Rightarrow> transport" where
  "subscribeToKernelEvents obs st = st\<lparr>subscribers := subscribers st @ [obs]\<rparr>"

text \<open>
  The \<^verbatim>\<open>dispose\<close> of the handle \<^verbatim>\<open>subscribeToKernelEvents(observer)\<close> returned: the
  handle remembers the observer, not the position of its registration.
\<close>

definition subscription_dispose :: "observer \<Rightarrow> transport \<Rightarrow> transport" where
  "subscription_dispose obs st =
     (let i = indexOf (subscribers st) obs in
      if i \<ge> 0 then st\<lparr>subscribers := splice1 (nat i) (subscribers st)\<rparr> else st)"

definition resolve :: "transport \<Rightarrow> transport" where
  "resolve st = st\<lparr>readyPromise := settle (Fulfilled ()) (readyPromise st),
     resolveCalls := Suc (resolveCalls st)\<rparr>"

text \<open>
  One statement of a client's callback, and its body: the statements run in order, and
  the first that throws ends the body with what the earlier ones did left in place.
\<close>

fun perform :: "transport \<Rightarrow> action \<Rightarrow> completion \<times> transport" where
  "perform st (DisposeHandle n) = (Normal, subscription_dispose (Client n) st)"
| "perform st (Subscribe n) = (Normal, subscribeToKernelEvents (Client n) st)"
| "perform st (Raise e) = (Throw e, st)"

fun perform_all :: "transport \<Rightarrow> action list \<Rightarrow> completion \<times> transport" where
  "perform_all st [] = (Normal, st)"
| "perform_all st (a # as) =
     (case perform st a of
        (Normal, st') \<Rightarrow> perform_all st' as
      | (Throw e, st') \<Rightarrow> (Throw e, st'))"

text \<open>
  Calling an observer with an envelope. The readiness listener is the arrow function of
  the constructor, which cannot throw; a client does what \<open>cb\<close> says.
\<close>

definition invoke ::
  "callbacks \<Rightarrow> observer \<Rightarrow> envelope \<Rightarrow> transport \<Rightarrow> completion \<times> transport" where
  "invoke cb obs env st =
     (let st1 = st\<lparr>notified := notified st @ [(obs, env)]\<rparr> in
      case obs of
        ReadySubscriber \<Rightarrow>
          (Normal,
           if eventType env = KernelReadyType
           then resolve (subscription_dispose ReadySubscriber st1) else st1)
      | Client n \<Rightarrow> perform_all st1 (cb n env))"

text \<open>
  The loop \<^verbatim>\<open>for (let i = this.subscribers.length - 1; i >= 0; i--)\<close>; the first argument
  is \<open>i + 1\<close>. The array is read again at every step, and a slot that is no longer
  there holds \<^verbatim>\<open>undefined\<close>, whose call throws. Nothing catches what an observer
  throws: it ends the loop.
\<close>

fun notifyLoop :: "callbacks \<Rightarrow> envelope \<Rightarrow> nat \<Rightarrow> transport \<Rightarrow> completion \<times> transport" where
  "notifyLoop cb env 0 st = (Normal, st)"
| "notifyLoop cb env (Suc i) st =
     (if i < length (subscribers st)
      then (case invoke cb (subscribers st ! i) env st of
              (Normal, st') \<Rightarrow> notifyLoop cb env i st'
            | (Throw e, st') \<Rightarrow> (Throw e, st'))
      else (Throw TypeError, st))"

text \<open>
  \<^verbatim>\<open>handleLine\<close>: a line that \<^verbatim>\<open>parse\<close> rejects throws before anything else happens,
  and an exception of the loop leaves through the line handler.
\<close>

definition handleLine ::
  "callbacks \<Rightarrow> (string \<Rightarrow> reason + envelope) \<Rightarrow> string \<Rightarrow> transport \<Rightarrow> completion \<times> transport" where
  "handleLine cb parse line st =
     (case parse line of
        Inl e \<Rightarrow> (Throw e, st)
      | Inr envelope \<Rightarrow>
          (let st0 = st\<lparr>handled := handled st @ [envelope]\<rparr>;
               st1 = (if eventType envelope = DiagnosticLogEntryProducedType
                      then appendLine (message (event envelope)) st0 else st0)
           in case notifyLoop cb envelope (length (subscribers st1)) st1 of
                (Normal, st2) \<Rightarrow> (Normal, st2\<lparr>returned := returned st2 @ [envelope]\<rparr>)
              | (Throw e, st2) \<Rightarrow> (Throw e, st2)))"

subsection \<open>Commands and disposal\<close>

text \<open>
  The guard of both methods, \<^verbatim>\<open>return obj !== undefined\<close>. The promise executor of
  \<^verbatim>\<open>submitCommand\<close> runs at once, and an exception in it rejects the promise with what
  was thrown. Writes to the input stream of the process are recorded in order.
\<close>

definition isNotNull :: "'a js_ref \<Rightarrow> bool" where
  "isNotNull obj = (obj \<noteq> Undefined)"

definition submitCommand ::
  "(string \<times> string \<times> 'c \<Rightarrow> string) \<Rightarrow> 'c \<Rightarrow> string \<Rightarrow> string \<Rightarrow> transport
     \<Rightarrow> unit promise \<times> transport" where
  "submitCommand stringify cmd commandType token st =
     (let str = stringify (token, commandType, cmd) in
      if isNotNull (childProcess st) then
        (case deref (childProcess st) of
           Inl e \<Rightarrow> (Rejected e, st)
         | Inr p \<Rightarrow>
             (Fulfilled (),
              st\<lparr>childProcess := Ref (p\<lparr>stdin := stdin p @ [str, [CHR 0x0A]]\<rparr>)\<rparr>))
      else (Rejected NoDetail, st))"

definition dispose :: "transport \<Rightarrow> completion \<times> transport" where
  "dispose st =
     (if isNotNull (childProcess st) then
        (case deref (childProcess st) of
           Inl e \<Rightarrow> (Throw e, st)
         | Inr p \<Rightarrow> (Normal, st\<lparr>childProcess := Ref (p\<lparr>killed := True\<rparr>)\<rparr>))
      else (Normal, st))"

definition waitForReady :: "transport \<Rightarrow> unit promise" where
  "waitForReady st = readyPromise st"

subsection \<open>Construction and the life of a transport\<close>

text \<open>
  The constructor initialises the fields and creates the readiness promise, whose async
  executor is suspended at its first \<^verbatim>\<open>await\<close> when the constructor returns; the process
  is not spawned yet and the handle is \<^verbatim>\<open>null\<close>. The sink is the caller's.
\<close>

definition constructor :: "process_start \<Rightarrow> string list \<Rightarrow> transport" where
  "constructor processStart sink =
     \<lparr>childProcess = Null, readyPromise = Pending, subscribers = [], httpPort = Num 0,
      diagnosticChannel = sink, resolveCalls = 0, notified = [], handled = [],
      returned = []\<rparr>"

text \<open>
  The executor of the readiness promise, run as one step once the port probe has settled:
  negotiate the arguments, spawn (the operating system chooses \<open>newPid\<close>; the spawn is
  taken to succeed), log, attach the handlers and subscribe the readiness listener. When
  \<^verbatim>\<open>configureHttpArgs\<close> rejects or never settles, nothing after the \<^verbatim>\<open>await\<close> runs.
  In the source the executor starts inside the constructor and stops at the \<^verbatim>\<open>await\<close>;
  what it does before that point is to copy and search the arguments and, when the
  explicit flag is there, to set the port field, which no method of the class reads.
\<close>

definition executor ::
  "server_event list \<Rightarrow> nat \<Rightarrow> process_start \<Rightarrow> heap \<times> transport \<Rightarrow> heap \<times> transport" where
  "executor evs newPid processStart hs =
     (case configureHttpArgs evs (args processStart) hs of
        (Fulfilled a, h, st) \<Rightarrow>
          (let child = \<lparr>pid = newPid, spawnCommand = command processStart,
                        spawnArgs = h ! a, cwd = workingDirectory processStart,
                        stdin = [], killed = False\<rparr>;
               st1 = st\<lparr>childProcess := Ref child\<rparr>;
               st2 = appendLine (''Kernel started with pid '' @ string_of_nat newPid @ ''.'') st1
           in (h, subscribeToKernelEvents ReadySubscriber st2))
      | (Pending, h, st) \<Rightarrow> (h, st)
      | (Rejected r, h, st) \<Rightarrow> (h, st))"






section \<open>Vocabulary of the properties\<close>

text \<open>
  A statement of a callback is inert for an observer set when it returns and leaves the set
  as it is: disposing the handle of a callback that is not registered. An observer is
  quiet for an envelope when being notified of it neither changes the observer set nor
  throws: a client all of whose statements are inert, the readiness listener on anything
  but the ready event.
\<close>

definition inert :: "observer list \<Rightarrow> action \<Rightarrow> bool" where
  "inert subs a =
     (case a of DisposeHandle m \<Rightarrow> Client m \<notin> set subs | Subscribe m \<Rightarrow> False
      | Raise e \<Rightarrow> False)"

definition quiet :: "callbacks \<Rightarrow> envelope \<Rightarrow> observer list \<Rightarrow> observer \<Rightarrow> bool" where
  "quiet cb env subs obs =
     (case obs of ReadySubscriber \<Rightarrow> eventType env \<noteq> KernelReadyType
      | Client n \<Rightarrow> list_all (inert subs) (cb n env))"

text \<open>
  An observer is considerate towards a list of observers, for an envelope, when on being
  notified it disposes no handle of another observer of the list: every handle it disposes
  is its own or that of a callback outside the list, and when its callback occurs more
  than once in the list it disposes its own handle at most once. It may subscribe
  callbacks and it may throw. The readiness listener is considerate.
\<close>

definition own_or_absent :: "observer list \<Rightarrow> nat \<Rightarrow> action \<Rightarrow> bool" where
  "own_or_absent subs n a =
     (case a of DisposeHandle m \<Rightarrow> m = n \<or> Client m \<notin> set subs | Subscribe m \<Rightarrow> True
      | Raise e \<Rightarrow> True)"

definition considerate :: "callbacks \<Rightarrow> envelope \<Rightarrow> observer list \<Rightarrow> observer \<Rightarrow> bool" where
  "considerate cb env subs obs =
     (case obs of ReadySubscriber \<Rightarrow> True
      | Client n \<Rightarrow>
          list_all (own_or_absent subs n) (cb n env)
          \<and> (count_list subs (Client n) \<le> 1
             \<or> length (filter (\<lambda>a. a = DisposeHandle n) (cb n env)) \<le> 1))"

text \<open>
  The registered observers are orderly for an envelope when each of them is considerate
  towards the observers registered up to itself, which are the ones the loop has not
  called yet when it calls this one: handles of observers registered later may be
  disposed at will.
\<close>

definition orderly :: "callbacks \<Rightarrow> envelope \<Rightarrow> observer list \<Rightarrow> bool" where
  "orderly cb env subs =
     list_all (\<lambda>k. considerate cb env (take (Suc k) subs) (subs ! k)) [0..<length subs]"








section \<open>Concrete inputs\<close>

text \<open>A process-start descriptor whose argument array is at address 0 of the store.\<close>

definition example_start :: process_start where
  "example_start = \<lparr>command = ''dotnet'', args = 0, workingDirectory = ''/tmp''\<rparr>"

text \<open>The diagnostic envelope of the specification's scenario, and the ready event.\<close>

definition boot_ok :: envelope where
  "boot_ok = \<lparr>eventType = DiagnosticLogEntryProducedType, event = \<lparr>message = ''boot ok''\<rparr>\<rparr>"


text \<open>Decoders that read every line as one fixed envelope, and a serialiser.\<close>

definition decode_boot_ok :: "string \<Rightarrow> reason + envelope" where
  "decode_boot_ok line = Inr boot_ok"







definition throws :: callbacks where
  "throws n env = (if n = 1 then [Raise (Message ''observer failed'')] else [])"

definition disposes_self_twice :: callbacks where
  "disposes_self_twice n env = (if n = 0 then [DisposeHandle 0, DisposeHandle 0] else [])"

definition disposes_absent :: callbacks where
  "disposes_absent n env = (if n = 0 then [DisposeHandle 7] else [])"




text \<open>
  A transport whose process was started with the arguments \<^verbatim>\<open>["stdio"]\<close>, port 5000 and
  process id 42; the same with clients 0 and 1 subscribed, and with client 0 subscribed
  twice and client 1 once; and two lives from there: the process reports ready twice to
  one passive client; three clients subscribe, the last of which disposes the other two
  when called, and the process reports ready.
\<close>

definition launched :: transport where
  "launched = snd (executor [Listening 5000, Close] 42 example_start
     ([[''stdio'']], constructor example_start []))"

definition serving :: transport where
  "serving = subscribeToKernelEvents (Client 1) (subscribeToKernelEvents (Client 0) launched)"

definition serving_twice :: transport where
  "serving_twice =
     subscribeToKernelEvents (Client 1)
       (subscribeToKernelEvents (Client 0) (subscribeToKernelEvents (Client 0) launched))"



section \<open>Arrays, digits and \<^verbatim>\<open>parseInt\<close>\<close>

lemma indexOf_ge: "- 1 \<le> indexOf xs x"
  by (induction xs) (auto simp: Let_def)

lemma indexOf_neg_iff: "indexOf xs x < 0 \<longleftrightarrow> x \<notin> set xs"
proof (induction xs)
  case Nil
  show ?case by simp
next
  case (Cons y ys)
  then show ?case using indexOf_ge [of ys x] by (auto simp: Let_def)
qed

lemma indexOf_absent: "x \<notin> set xs \<Longrightarrow> indexOf xs x = - 1"
  by (induction xs) (auto simp: Let_def)

lemma indexOf_present:
  "x \<in> set xs \<Longrightarrow> 0 \<le> indexOf xs x \<and> nat (indexOf xs x) < length xs \<and> xs ! nat (indexOf xs x) = x
     \<and> x \<notin> set (take (nat (indexOf xs x)) xs)"
proof (induction xs)
  case Nil
  then show ?case by simp
next
  case (Cons y ys)
  show ?case
  proof (cases "y = x")
    case True
    then show ?thesis by simp
  next
    case False
    with Cons.prems have "x \<in> set ys" by simp
    from Cons.IH [OF this] False show ?thesis
      by (simp add: Let_def nat_add_distrib)
  qed
qed

lemma indexOf_first: "x \<notin> set as \<Longrightarrow> indexOf (as @ x # bs) x = int (length as)"
  by (induction as) (auto simp: Let_def)

lemma assign_pair:
  "i < length xs \<Longrightarrow> assign (assign xs i f) (Suc i) s = take i xs @ [f, s] @ drop (i + 2) xs"
  by (cases "Suc i < length xs")
     (auto simp: assign_def upd_conv_take_nth_drop take_Suc_conv_app_nth nth_list_update
        intro: nth_equalityI)

lemma number_to_string_nat: "number_to_string (Num (int p)) = string_of_nat p"
  by (simp add: number_to_string_def)

lemma decimal_digit_nth: "d < 10 \<Longrightarrow> decimal_digits ! d \<in> set decimal_digits"
  by (rule nth_mem) (simp add: decimal_digits_def)

lemma decimal_digits_all:
  "list_all (\<lambda>c. \<not> is_space c \<and> c \<noteq> CHR ''-'' \<and> c \<noteq> CHR ''+'' \<and> c \<noteq> CHR ''x''
     \<and> c \<noteq> CHR ''X'' \<and> is_digit 10 c) decimal_digits"
  by code_simp

lemma decimal_digit_props:
  assumes "c \<in> set decimal_digits"
  shows "\<not> is_space c" and "c \<noteq> CHR ''-''" and "c \<noteq> CHR ''+''" and "c \<noteq> CHR ''x''"
    and "c \<noteq> CHR ''X''" and "is_digit 10 c"
  using assms decimal_digits_all unfolding list_all_iff by blast+

lemma digit_values_all: "list_all (\<lambda>d. digit_value (decimal_digits ! d) = d) [0..<10]"
  by code_simp

lemma digit_value_nth: "d < 10 \<Longrightarrow> digit_value (decimal_digits ! d) = d"
  using digit_values_all unfolding list_all_iff by simp

lemma string_of_nat_digits: "set (string_of_nat n) \<subseteq> set decimal_digits"
proof (induction n rule: string_of_nat.induct)
  case (1 n)
  show ?case
  proof (cases "n < 10")
    case True
    then show ?thesis
      by (subst string_of_nat.simps) (simp add: decimal_digit_nth)
  next
    case False
    with 1 have "set (string_of_nat (n div 10)) \<subseteq> set decimal_digits" by simp
    moreover have "decimal_digits ! (n mod 10) \<in> set decimal_digits"
      by (simp add: decimal_digit_nth)
    ultimately show ?thesis using False
      by (subst string_of_nat.simps) simp
  qed
qed

lemma string_of_nat_nonempty: "string_of_nat n \<noteq> []"
  by (subst string_of_nat.simps) simp

lemma string_of_nat_value:
  "foldl (\<lambda>a c. a * 10 + digit_value c) 0 (string_of_nat n) = n"
proof (induction n rule: string_of_nat.induct)
  case (1 n)
  show ?case
  proof (cases "n < 10")
    case True
    then show ?thesis
      by (subst string_of_nat.simps) (simp add: digit_value_nth)
  next
    case False
    with 1 have "foldl (\<lambda>a c. a * 10 + digit_value c) 0 (string_of_nat (n div 10)) = n div 10"
      by simp
    then show ?thesis using False
      by (subst string_of_nat.simps) (simp add: digit_value_nth)
  qed
qed

text \<open>A non-empty string of decimal digits is read by \<^verbatim>\<open>parseInt\<close> as its decimal value.\<close>

lemma parseInt_digits:
  assumes "s \<noteq> []" and "set s \<subseteq> set decimal_digits"
  shows "parseInt (Ref s) = Num (int (foldl (\<lambda>a c. a * 10 + digit_value c) 0 s))"
proof -
  obtain c cs where s: "s = c # cs" using assms(1) by (cases s) auto
  have c: "c \<in> set decimal_digits" using assms(2) s by simp
  have drop: "dropWhile is_space s = s"
    using decimal_digit_props(1) [OF c] s by simp
  have nohex: "take 2 s \<noteq> ''0x''" "take 2 s \<noteq> ''0X''"
  proof -
    show "take 2 s \<noteq> ''0x''"
    proof (cases cs)
      case Nil
      then show ?thesis using s by simp
    next
      case (Cons d ds)
      then have "d \<in> set decimal_digits" using assms(2) s by simp
      from decimal_digit_props(4) [OF this] show ?thesis using s Cons by simp
    qed
    show "take 2 s \<noteq> ''0X''"
    proof (cases cs)
      case Nil
      then show ?thesis using s by simp
    next
      case (Cons d ds)
      then have "d \<in> set decimal_digits" using assms(2) s by simp
      from decimal_digit_props(5) [OF this] show ?thesis using s Cons by simp
    qed
  qed
  have all: "takeWhile (is_digit 10) s = s"
    using assms(2) decimal_digit_props(6) by (auto intro!: takeWhile_eq_all_conv [THEN iffD2])
  have hd: "hd s \<noteq> CHR ''-''" "hd s \<noteq> CHR ''+''"
    using decimal_digit_props(2,3) [OF c] s by simp_all
  have z: "(if s \<noteq> [] \<and> (hd s = CHR ''-'' \<or> hd s = CHR ''+'') then tl s else s) = s"
    using hd by simp
  have hex: "(take 2 s = ''0x'' \<or> take 2 s = ''0X'') = False"
    using nohex by simp
  show ?thesis
    unfolding parseInt_def Let_def to_string_def js_ref.case drop z hex if_False all
    using assms(1) hd by simp
qed

lemma parseInt_string_of_nat: "parseInt (Ref (string_of_nat p)) = Num (int p)"
  by (simp only: parseInt_digits [OF string_of_nat_nonempty string_of_nat_digits]
      string_of_nat_value)

lemma string_of_nat_not_flag: "string_of_nat p \<noteq> port_flag"
proof
  assume eq: "string_of_nat p = port_flag"
  have "CHR ''-'' \<in> set port_flag" by (simp add: port_flag_def)
  with eq have "CHR ''-'' \<in> set decimal_digits" using string_of_nat_digits [of p] by auto
  then show False by (simp add: decimal_digits_def)
qed

lemma string_of_nat_5000: "string_of_nat 5000 = ''5000''"
  by (simp add: string_of_nat.simps [of 5000] string_of_nat.simps [of 500]
      string_of_nat.simps [of 50] string_of_nat.simps [of 5] decimal_digits_def)

lemma parseInt_8080: "parseInt (Ref ''8080'') = Num 8080"
  by code_simp

text \<open>The element after a flag that ends the list is \<^verbatim>\<open>undefined\<close>, which is no number.\<close>

lemma parseInt_undefined: "parseInt Undefined = NaN"
  by code_simp

lemma parseInt_missing_value: "parseInt (element [port_flag] (nat (indexOf [port_flag] port_flag) + 1)) = NaN"
  by (simp add: element_def parseInt_undefined)

lemma probe_5000: "findFreePort [Listening 5000, Close] = Fulfilled 5000"
  by (simp add: findFreePort_def probe_start_def settle_def)

section \<open>Ephemeral port allocation\<close>

text \<open>
  The probe resolves with \<open>p\<close> exactly when the first thing its socket reports is that it
  listens on \<open>p\<close> and the next thing it reports, repeated listening events apart, is that
  it closed.
\<close>

lemma emit_settled: "outcome s \<noteq> Pending \<Longrightarrow> outcome (emit s e) = outcome s"
  by (cases e) (simp_all add: settle_def split: option.splits)

lemma probe_settled: "outcome s \<noteq> Pending \<Longrightarrow> outcome (foldl emit s evs) = outcome s"
proof (induction evs arbitrary: s)
  case Nil
  show ?case by simp
next
  case (Cons e evs)
  from Cons.prems have "outcome (emit s e) \<noteq> Pending" by (simp add: emit_settled)
  from Cons.IH [OF this] Cons.prems show ?case by (simp add: emit_settled)
qed

lemma probe_bound:
  assumes "port s = Some p" and "\<not> onListening s" and "onClose s" and "onError s"
    and "outcome s = Pending"
  shows "outcome (foldl emit s evs) = Fulfilled q
     \<longleftrightarrow> q = p \<and> (\<exists>qs rest. evs = map Listening qs @ Close # rest)"
proof (induction evs)
  case Nil
  show ?case using assms by simp
next
  case (Cons e evs)
  show ?case
  proof (cases e)
    case (Listening r)
    have "emit s e = s" using assms by (simp add: Listening)
    then have "outcome (foldl emit s (e # evs)) = Fulfilled q
      \<longleftrightarrow> q = p \<and> (\<exists>qs rest. evs = map Listening qs @ Close # rest)"
      using Cons.IH by simp
    also have "(\<exists>qs rest. evs = map Listening qs @ Close # rest)
      \<longleftrightarrow> (\<exists>qs rest. e # evs = map Listening qs @ Close # rest)"
    proof
      assume "\<exists>qs rest. evs = map Listening qs @ Close # rest"
      then obtain qs rest where "evs = map Listening qs @ Close # rest" by blast
      then have "e # evs = map Listening (r # qs) @ Close # rest" by (simp add: Listening)
      then show "\<exists>qs rest. e # evs = map Listening qs @ Close # rest" by blast
    next
      assume "\<exists>qs rest. e # evs = map Listening qs @ Close # rest"
      then obtain qs rest where eq: "e # evs = map Listening qs @ Close # rest" by blast
      with Listening obtain q' qs' where "qs = q' # qs'" by (cases qs) auto
      with eq have "evs = map Listening qs' @ Close # rest" by simp
      then show "\<exists>qs rest. evs = map Listening qs @ Close # rest" by blast
    qed
    finally show ?thesis .
  next
    case Close
    have "outcome (emit s e) = Fulfilled p" using assms by (simp add: Close settle_def)
    then have "outcome (foldl emit s (e # evs)) = Fulfilled p"
      using probe_settled [of "emit s e" evs] by simp
    moreover have "e # evs = map Listening [] @ Close # evs" by (simp add: Close)
    then have "\<exists>qs rest. e # evs = map Listening qs @ Close # rest" by blast
    ultimately show ?thesis by auto
  next
    case (Error m)
    have "outcome (emit s e) \<noteq> Pending \<and> outcome (emit s e) \<noteq> Fulfilled q"
      using assms by (simp add: Error settle_def)
    then have "outcome (foldl emit s (e # evs)) \<noteq> Fulfilled q"
      using probe_settled [of "emit s e" evs] by simp
    moreover have "\<not> (\<exists>qs rest. e # evs = map Listening qs @ Close # rest)"
    proof
      assume "\<exists>qs rest. e # evs = map Listening qs @ Close # rest"
      then obtain qs rest where "e # evs = map Listening qs @ Close # rest" by blast
      then show False using Error by (cases qs) auto
    qed
    ultimately show ?thesis by simp
  qed
qed

lemma findFreePort_Fulfilled:
  "findFreePort evs = Fulfilled p
     \<longleftrightarrow> (\<exists>qs rest. evs = Listening p # map Listening qs @ Close # rest)"
proof (cases evs)
  case Nil
  then show ?thesis by (simp add: findFreePort_def probe_start_def)
next
  case (Cons e evs')
  show ?thesis
  proof (cases e)
    case (Listening r)
    have "findFreePort evs = Fulfilled p
      \<longleftrightarrow> p = r \<and> (\<exists>qs rest. evs' = map Listening qs @ Close # rest)"
      using probe_bound [of "emit probe_start e" r evs' p]
      by (simp add: findFreePort_def Cons Listening probe_start_def)
    then show ?thesis using Cons Listening by auto
  next
    case Close
    have "outcome (emit probe_start e) = Rejected (Message ''Can't get port'')"
      by (simp add: Close probe_start_def settle_def)
    then have "findFreePort evs = Rejected (Message ''Can't get port'')"
      using probe_settled [of "emit probe_start e" evs'] by (simp add: findFreePort_def Cons)
    then show ?thesis using Cons Close by simp
  next
    case (Error m)
    have "outcome (emit probe_start e) = Rejected (Message m)"
      by (simp add: Error probe_start_def settle_def)
    then have "findFreePort evs = Rejected (Message m)"
      using probe_settled [of "emit probe_start e" evs'] by (simp add: findFreePort_def Cons)
    then show ?thesis using Cons Error by simp
  qed
qed

section \<open>Argument negotiation\<close>

text \<open>The five ways \<^verbatim>\<open>configureHttpArgs\<close> can go, with the final array written out.\<close>

lemma configureHttpArgs_no_array:
  "lookup h a = None \<Longrightarrow> configureHttpArgs evs a (h, st) = (Rejected TypeError, h, st)"
  by (simp add: configureHttpArgs_def)

lemma configureHttpArgs_explicit:
  assumes "lookup h a = Some xs" and "port_flag \<in> set xs"
  shows "configureHttpArgs evs a (h, st) =
    (Fulfilled (length h), h @ [xs],
     st\<lparr>httpPort := parseInt (element xs (nat (indexOf xs port_flag) + 1))\<rparr>)"
  using assms indexOf_neg_iff [of xs port_flag]
  by (simp add: configureHttpArgs_def alloc_def)

lemma configureHttpArgs_unsettled:
  assumes "lookup h a = Some xs" and "port_flag \<notin> set xs"
  shows "findFreePort evs = Pending \<Longrightarrow> configureHttpArgs evs a (h, st) = (Pending, h @ [xs], st)"
    and "findFreePort evs = Rejected r \<Longrightarrow>
      configureHttpArgs evs a (h, st) = (Rejected r, h @ [xs], st)"
  using assms by (simp_all add: configureHttpArgs_def alloc_def indexOf_absent)

lemma configureHttpArgs_range:
  assumes "lookup h a = Some xs" and "port_flag \<notin> set xs"
    and "findFreePort evs = Fulfilled p" and "0 < indexOf xs port_range_flag"
  shows "configureHttpArgs evs a (h, st) =
    (Fulfilled (length h),
     h @ [take (nat (indexOf xs port_range_flag)) xs @ [port_flag, string_of_nat p]
            @ drop (nat (indexOf xs port_range_flag) + 2) xs],
     appendLine deprecation_notice (st\<lparr>httpPort := Num (int p)\<rparr>))"
proof -
  have "port_range_flag \<in> set xs"
    using assms(4) indexOf_neg_iff [of xs port_range_flag] by auto
  then have i: "nat (indexOf xs port_range_flag) < length xs"
    by (simp add: indexOf_present)
  have "httpPort (appendLine deprecation_notice (st\<lparr>httpPort := Num (int p)\<rparr>)) = Num (int p)"
    by (simp add: appendLine_def)
  then show ?thesis
    using assms assign_pair [OF i, of port_flag "string_of_nat p"]
    by (simp add: configureHttpArgs_def alloc_def indexOf_absent array_assign_def store_def
        number_to_string_nat Let_def)
qed

lemma configureHttpArgs_push:
  assumes "lookup h a = Some xs" and "port_flag \<notin> set xs"
    and "findFreePort evs = Fulfilled p" and "\<not> 0 < indexOf xs port_range_flag"
  shows "configureHttpArgs evs a (h, st) =
    (Fulfilled (length h), h @ [xs @ [port_flag, string_of_nat p]], st\<lparr>httpPort := Num (int p)\<rparr>)"
  using assms
  by (simp add: configureHttpArgs_def alloc_def indexOf_absent array_push_def store_def
      number_to_string_nat Let_def)

lemma configureHttpArgs_shape:
  "\<exists>res zs st'. configureHttpArgs evs a (h, st) = (res, h @ zs, st')
     \<and> (\<forall>r. res = Fulfilled r \<longrightarrow> r = length h)"
proof (cases "lookup h a")
  case None
  then show ?thesis by (simp add: configureHttpArgs_no_array)
next
  case (Some xs)
  show ?thesis
  proof (cases "port_flag \<in> set xs")
    case True
    with Some show ?thesis by (simp add: configureHttpArgs_explicit)
  next
    case False
    show ?thesis
    proof (cases "findFreePort evs")
      case Pending
      with Some False show ?thesis by (simp add: configureHttpArgs_unsettled)
    next
      case (Rejected r)
      with Some False show ?thesis by (simp add: configureHttpArgs_unsettled)
    next
      case (Fulfilled p)
      show ?thesis
      proof (cases "0 < indexOf xs port_range_flag")
        case True
        from configureHttpArgs_range [OF Some False Fulfilled True] show ?thesis by simp
      next
        case False2: False
        from configureHttpArgs_push [OF Some False Fulfilled False2] show ?thesis by simp
      qed
    qed
  qed
qed

lemma configureHttpArgs_fresh:
  "fst (configureHttpArgs evs a (h, st)) = Fulfilled r \<Longrightarrow> r = length h"
  using configureHttpArgs_shape [of evs a h st] by auto

lemma configureHttpArgs_frame:
  assumes "b < length h"
  shows "fst (snd (configureHttpArgs evs a (h, st))) ! b = h ! b"
    and "b < length (fst (snd (configureHttpArgs evs a (h, st))))"
  using configureHttpArgs_shape [of evs a h st] assms by (auto simp: nth_append)

text \<open>
  Claim C2. The deprecated flag is looked for with \<open>index > 0\<close>, so at position 0 it is not
  found: with the arguments \<^verbatim>\<open>["--http-port-range", "1000-2000"]\<close> and a probe that
  allocates port 5000, the flag and its value stay where they are, the explicit pair is
  appended after them, and nothing is logged to the diagnostic sink.
\<close>

theorem port_range_in_first_position:
  "configureHttpArgs [Listening 5000, Close] 0 ([[''--http-port-range'', ''1000-2000'']], st) =
     (Fulfilled 1,
      [[''--http-port-range'', ''1000-2000''],
       [''--http-port-range'', ''1000-2000'', ''--http-port'', ''5000'']],
      st\<lparr>httpPort := Num 5000\<rparr>)"
proof -
  have 1: "lookup [[''--http-port-range'', ''1000-2000'']] 0 = Some [''--http-port-range'', ''1000-2000'']"
    by (simp add: lookup_def)
  have 2: "port_flag \<notin> set [''--http-port-range'', ''1000-2000'']" by (simp add: port_flag_def)
  have 3: "\<not> 0 < indexOf [''--http-port-range'', ''1000-2000''] port_range_flag"
    by (simp add: port_range_flag_def)
  show ?thesis
    using configureHttpArgs_push [OF 1 2 probe_5000 3, of st]
    by (simp add: string_of_nat_5000 port_flag_def)
qed

text \<open>
  Claim C3, where it fails: an argument list that repeats the explicit flag comes back as
  it was, with two \<^verbatim>\<open>--http-port\<close> pairs.
\<close>

theorem repeated_port_flag:
  "fst (configureHttpArgs [] 0
     ([[''--http-port'', ''1'', ''--http-port'', ''2'']], constructor example_start [])) = Fulfilled 1
   \<and> lookup (fst (snd (configureHttpArgs [] 0
     ([[''--http-port'', ''1'', ''--http-port'', ''2'']], constructor example_start [])))) 1
     = Some [''--http-port'', ''1'', ''--http-port'', ''2'']
   \<and> count_list [''--http-port'', ''1'', ''--http-port'', ''2''] port_flag = 2"
proof -
  have 1: "lookup [[''--http-port'', ''1'', ''--http-port'', ''2'']] 0
      = Some [''--http-port'', ''1'', ''--http-port'', ''2'']"
    by (simp add: lookup_def)
  have 2: "port_flag \<in> set [''--http-port'', ''1'', ''--http-port'', ''2'']"
    by (simp add: port_flag_def)
  show ?thesis
    by (simp add: configureHttpArgs_explicit [OF 1 2] lookup_def port_flag_def)
qed

text \<open>
  Claim C3, amended. When \<^verbatim>\<open>configureHttpArgs\<close> resolves, the array it returns holds the
  flag \<^verbatim>\<open>--http-port\<close>, exactly once unless the input itself repeats it, and the port field
  is \<^verbatim>\<open>parseInt\<close> of the element after the first occurrence of the flag; when the input
  holds the flag already, the returned array has the elements of the input.
\<close>

theorem configureHttpArgs_port_pair:
  assumes "configureHttpArgs evs a (h, st) = (Fulfilled r, h', st')"
  shows "\<exists>xs ys. lookup h a = Some xs \<and> lookup h' r = Some ys
    \<and> port_flag \<in> set ys
    \<and> (count_list xs port_flag \<le> 1 \<longrightarrow> count_list ys port_flag = 1)
    \<and> httpPort st' = parseInt (element ys (nat (indexOf ys port_flag) + 1))
    \<and> (port_flag \<in> set xs \<longrightarrow> ys = xs)"
proof (cases "lookup h a")
  case None
  with assms show ?thesis by (simp add: configureHttpArgs_no_array)
next
  case (Some xs)
  show ?thesis
  proof (cases "port_flag \<in> set xs")
    case True
    from assms configureHttpArgs_explicit [OF Some True, of evs st]
    have r: "r = length h" and h': "h' = h @ [xs]"
      and st': "st' = st\<lparr>httpPort := parseInt (element xs (nat (indexOf xs port_flag) + 1))\<rparr>"
      by simp_all
    have "count_list xs port_flag \<noteq> 0" using True by (simp add: count_list_0_iff)
    then have "count_list xs port_flag \<le> 1 \<longrightarrow> count_list xs port_flag = 1" by arith
    with Some True r h' st' show ?thesis by (simp add: lookup_def)
  next
    case False
    from assms obtain p where p: "findFreePort evs = Fulfilled p"
      using configureHttpArgs_unsettled [OF Some False, where evs = evs and st = st]
      by (cases "findFreePort evs") auto
    let ?s = "string_of_nat p"
    have tail: "\<exists>as bs. lookup h' r = Some (as @ port_flag # ?s # bs) \<and> port_flag \<notin> set as
        \<and> port_flag \<notin> set bs \<and> httpPort st' = Num (int p)"
    proof (cases "0 < indexOf xs port_range_flag")
      case True
      let ?i = "nat (indexOf xs port_range_flag)"
      from assms configureHttpArgs_range [OF Some False p True, of st]
      have "r = length h" and "h' = h @ [take ?i xs @ [port_flag, ?s] @ drop (?i + 2) xs]"
        and "httpPort st' = Num (int p)"
        by (auto simp: appendLine_def)
      moreover have "port_flag \<notin> set (take ?i xs)" "port_flag \<notin> set (drop (?i + 2) xs)"
        using False by (auto dest: in_set_takeD in_set_dropD)
      ultimately show ?thesis by (auto simp: lookup_def)
    next
      case False2: False
      from assms configureHttpArgs_push [OF Some False p False2, of st]
      have "r = length h" and "h' = h @ [xs @ [port_flag, ?s]]" and "httpPort st' = Num (int p)"
        by auto
      with False show ?thesis
        by (intro exI [of _ xs] exI [of _ "[]"]) (simp add: lookup_def)
    qed
    then obtain as bs where ys: "lookup h' r = Some (as @ port_flag # ?s # bs)"
      and as: "port_flag \<notin> set as" and bs: "port_flag \<notin> set bs"
      and port: "httpPort st' = Num (int p)" by blast
    have "count_list (as @ port_flag # ?s # bs) port_flag = 1"
      using as bs string_of_nat_not_flag [of p] by (simp add: count_list_0_iff)
    moreover have "element (as @ port_flag # ?s # bs) (nat (indexOf (as @ port_flag # ?s # bs) port_flag) + 1)
        = Ref ?s"
      by (simp add: indexOf_first [OF as] element_def nth_append)
    ultimately show ?thesis
      using Some ys False port by (simp add: parseInt_string_of_nat)
  qed
qed

theorem configureHttpArgs_port_pair_witness:
  "configureHttpArgs [] 0 ([[''stdio'', ''--http-port'', ''8080'']], constructor example_start [])
     = (Fulfilled 1, [[''stdio'', ''--http-port'', ''8080''], [''stdio'', ''--http-port'', ''8080'']],
        (constructor example_start [])\<lparr>httpPort := Num 8080\<rparr>)
   \<and> port_flag \<in> set [''stdio'', ''--http-port'', ''8080'']
   \<and> count_list [''stdio'', ''--http-port'', ''8080''] port_flag = 1
   \<and> parseInt (element [''stdio'', ''--http-port'', ''8080'']
        (nat (indexOf [''stdio'', ''--http-port'', ''8080''] port_flag) + 1)) = Num 8080"
proof -
  have 1: "lookup [[''stdio'', ''--http-port'', ''8080'']] 0 = Some [''stdio'', ''--http-port'', ''8080'']"
    by (simp add: lookup_def)
  have 2: "port_flag \<in> set [''stdio'', ''--http-port'', ''8080'']"
    by (simp add: port_flag_def)
  have 3: "element [''stdio'', ''--http-port'', ''8080'']
        (nat (indexOf [''stdio'', ''--http-port'', ''8080''] port_flag) + 1) = Ref ''8080''"
    by (simp add: port_flag_def element_def)
  have run: "configureHttpArgs [] 0 ([[''stdio'', ''--http-port'', ''8080'']], constructor example_start [])
     = (Fulfilled 1, [[''stdio'', ''--http-port'', ''8080''], [''stdio'', ''--http-port'', ''8080'']],
        (constructor example_start [])\<lparr>httpPort := Num 8080\<rparr>)"
    unfolding configureHttpArgs_explicit [OF 1 2] 3 parseInt_8080 by simp
  have 4: "lookup [[''stdio'', ''--http-port'', ''8080''], [''stdio'', ''--http-port'', ''8080'']] 1
      = Some [''stdio'', ''--http-port'', ''8080'']"
    by (simp add: lookup_def)
  from configureHttpArgs_port_pair [OF run] have
    "count_list [''stdio'', ''--http-port'', ''8080''] port_flag \<le> 1
      \<longrightarrow> count_list [''stdio'', ''--http-port'', ''8080''] port_flag = 1"
    unfolding 1 4 by simp
  moreover have "count_list [''stdio'', ''--http-port'', ''8080''] port_flag \<le> 1"
    by (simp add: port_flag_def)
  ultimately show ?thesis
    using run 2 unfolding 3 parseInt_8080 by simp
qed

text \<open>
  Claim C9. When the argument list holds neither \<^verbatim>\<open>--http-port\<close> nor
  \<^verbatim>\<open>--http-port-range\<close>, \<^verbatim>\<open>configureHttpArgs\<close> resolves exactly when the socket of the
  probe reports that it listens on a port \<open>p\<close> and then that it closed; the returned array
  is then a new one, the input followed by the flag and the decimal form of that \<open>p\<close>,
  and \<open>p\<close> is the port field; nothing else of the transport changes.
\<close>

theorem configureHttpArgs_appends_port:
  assumes "lookup h a = Some xs" and "port_flag \<notin> set xs" and "port_range_flag \<notin> set xs"
  shows "configureHttpArgs evs a (h, st) = (Fulfilled r, h', st')
    \<longleftrightarrow> (\<exists>p qs rest. evs = Listening p # map Listening qs @ Close # rest
          \<and> r = length h \<and> h' = h @ [xs @ [port_flag, string_of_nat p]]
          \<and> st' = st\<lparr>httpPort := Num (int p)\<rparr>)"
proof (cases "findFreePort evs")
  case Pending
  then have "\<not> (\<exists>p qs rest. evs = Listening p # map Listening qs @ Close # rest)"
    using findFreePort_Fulfilled [of evs] by simp
  then show ?thesis
    using assms Pending by (auto simp: configureHttpArgs_unsettled indexOf_absent)
next
  case (Rejected e)
  then have "\<not> (\<exists>p qs rest. evs = Listening p # map Listening qs @ Close # rest)"
    using findFreePort_Fulfilled [of evs] by simp
  then show ?thesis
    using assms Rejected by (auto simp: configureHttpArgs_unsettled indexOf_absent)
next
  case (Fulfilled q)
  then obtain qs rest where evs: "evs = Listening q # map Listening qs @ Close # rest"
    using findFreePort_Fulfilled [of evs q] by blast
  have run: "configureHttpArgs evs a (h, st) =
    (Fulfilled (length h), h @ [xs @ [port_flag, string_of_nat q]], st\<lparr>httpPort := Num (int q)\<rparr>)"
    using assms Fulfilled by (simp add: configureHttpArgs_push indexOf_absent)
  show ?thesis
  proof
    assume "configureHttpArgs evs a (h, st) = (Fulfilled r, h', st')"
    with run have "r = length h \<and> h' = h @ [xs @ [port_flag, string_of_nat q]]
      \<and> st' = st\<lparr>httpPort := Num (int q)\<rparr>"
      by simp
    with evs show "\<exists>p qs rest. evs = Listening p # map Listening qs @ Close # rest
          \<and> r = length h \<and> h' = h @ [xs @ [port_flag, string_of_nat p]]
          \<and> st' = st\<lparr>httpPort := Num (int p)\<rparr>"
      by blast
  next
    assume "\<exists>p qs rest. evs = Listening p # map Listening qs @ Close # rest
          \<and> r = length h \<and> h' = h @ [xs @ [port_flag, string_of_nat p]]
          \<and> st' = st\<lparr>httpPort := Num (int p)\<rparr>"
    then obtain p qs' rest' where p: "evs = Listening p # map Listening qs' @ Close # rest'"
      and res: "r = length h" "h' = h @ [xs @ [port_flag, string_of_nat p]]"
        "st' = st\<lparr>httpPort := Num (int p)\<rparr>"
      by blast
    from p evs have "p = q" by simp
    with res run show "configureHttpArgs evs a (h, st) = (Fulfilled r, h', st')" by simp
  qed
qed

theorem configureHttpArgs_appends_port_witness:
  "lookup [[''--verbose'']] 0 = Some [''--verbose'']
   \<and> configureHttpArgs [Listening 5000, Close] 0 ([[''--verbose'']], constructor example_start []) =
       (Fulfilled 1, [[''--verbose''], [''--verbose'', ''--http-port'', ''5000'']],
        (constructor example_start [])\<lparr>httpPort := Num 5000\<rparr>)"
proof -
  have 1: "lookup [[''--verbose'']] 0 = Some [''--verbose'']" by (simp add: lookup_def)
  have 2: "port_flag \<notin> set [''--verbose'']" by (simp add: port_flag_def)
  have 3: "port_range_flag \<notin> set [''--verbose'']" by (simp add: port_range_flag_def)
  have "[Listening 5000, Close] = Listening 5000 # map Listening [] @ Close # []" by simp
  then have "\<exists>p qs rest. [Listening 5000, Close] = Listening p # map Listening qs @ Close # rest
      \<and> (1::nat) = length [[''--verbose'']]
      \<and> [[''--verbose''], [''--verbose'', ''--http-port'', ''5000'']]
          = [[''--verbose'']] @ [[''--verbose''] @ [port_flag, string_of_nat p]]
      \<and> (constructor example_start [])\<lparr>httpPort := Num 5000\<rparr>
          = (constructor example_start [])\<lparr>httpPort := Num (int p)\<rparr>"
    by (intro exI [of _ 5000] exI [of _ "[]"]) (simp add: string_of_nat_5000 port_flag_def)
  then show ?thesis
    using configureHttpArgs_appends_port [OF 1 2 3, where evs = "[Listening 5000, Close]"
      and r = 1 and h' = "[[''--verbose''], [''--verbose'', ''--http-port'', ''5000'']]"
      and st' = "(constructor example_start [])\<lparr>httpPort := Num 5000\<rparr>"
      and st = "constructor example_start []"] 1
    by blast
qed

text \<open>
  Claim C10. Whatever the arguments and the probe do, every array that was in the store
  before \<^verbatim>\<open>configureHttpArgs\<close> holds the same elements after it, the caller's among
  them, and the array returned is a new one.
\<close>

theorem configureHttpArgs_keeps_arrays:
  assumes "lookup h b = Some ys"
  shows "lookup (fst (snd (configureHttpArgs evs a (h, st)))) b = Some ys
    \<and> (\<forall>r. fst (configureHttpArgs evs a (h, st)) = Fulfilled r \<longrightarrow> lookup h r = None)"
proof -
  from assms have b: "b < length h" and ys: "h ! b = ys"
    by (auto simp: lookup_def split: if_splits)
  from configureHttpArgs_frame [OF b, of evs a st] ys
  have "lookup (fst (snd (configureHttpArgs evs a (h, st)))) b = Some ys"
    by (simp add: lookup_def)
  moreover have "\<forall>r. fst (configureHttpArgs evs a (h, st)) = Fulfilled r \<longrightarrow> lookup h r = None"
    using configureHttpArgs_fresh [of evs a h st] by (auto simp: lookup_def)
  ultimately show ?thesis by simp
qed

theorem configureHttpArgs_keeps_arrays_witness:
  "lookup [[''stdio'', ''--http-port-range'', ''1000-2000'']] 0
     = Some [''stdio'', ''--http-port-range'', ''1000-2000'']
   \<and> fst (configureHttpArgs [Listening 5000, Close] 0
        ([[''stdio'', ''--http-port-range'', ''1000-2000'']], constructor example_start []))
     = Fulfilled 1
   \<and> lookup (fst (snd (configureHttpArgs [Listening 5000, Close] 0
        ([[''stdio'', ''--http-port-range'', ''1000-2000'']], constructor example_start [])))) 0
     = Some [''stdio'', ''--http-port-range'', ''1000-2000'']
   \<and> lookup [[''stdio'', ''--http-port-range'', ''1000-2000'']] 1 = None"
proof -
  have 1: "lookup [[''stdio'', ''--http-port-range'', ''1000-2000'']] 0
     = Some [''stdio'', ''--http-port-range'', ''1000-2000'']" by (simp add: lookup_def)
  have 2: "port_flag \<notin> set [''stdio'', ''--http-port-range'', ''1000-2000'']"
    by (simp add: port_flag_def)
  have 3: "0 < indexOf [''stdio'', ''--http-port-range'', ''1000-2000''] port_range_flag"
    by (simp add: port_range_flag_def)
  have 4: "fst (configureHttpArgs [Listening 5000, Close] 0
        ([[''stdio'', ''--http-port-range'', ''1000-2000'']], constructor example_start []))
     = Fulfilled 1"
    by (simp add: configureHttpArgs_range [OF 1 2 probe_5000 3])
  show ?thesis
    using configureHttpArgs_keeps_arrays [OF 1, of "[Listening 5000, Close]" 0
        "constructor example_start []"] 1 4
    by simp
qed

section \<open>Commands and disposal\<close>

lemma submitCommand_with_process:
  "childProcess st = Ref p \<Longrightarrow>
   submitCommand stringify cmd commandType token st =
     (Fulfilled (),
      st\<lparr>childProcess := Ref (p\<lparr>stdin := stdin p @ [stringify (token, commandType, cmd), [CHR 0x0A]]\<rparr>)\<rparr>)"
  by (simp add: submitCommand_def isNotNull_def deref_def)

lemma dispose_with_process:
  "childProcess st = Ref p \<Longrightarrow> dispose st = (Normal, st\<lparr>childProcess := Ref (p\<lparr>killed := True\<rparr>)\<rparr>)"
  by (simp add: dispose_def isNotNull_def deref_def)

text \<open>
  Claim C4. The handle is \<^verbatim>\<open>null\<close> from construction until the executor has spawned the
  process, and \<^verbatim>\<open>isNotNull(null)\<close> is true, since it compares with \<^verbatim>\<open>undefined\<close>.
  A command submitted then reaches \<^verbatim>\<open>this.childProcess.stdin\<close>, which throws inside the
  promise executor: the promise is rejected with the TypeError, not by the bare
  \<^verbatim>\<open>reject()\<close> of the other branch.
\<close>

theorem submitCommand_without_process:
  "isNotNull (childProcess (constructor processStart sink))
   \<and> submitCommand stringify cmd commandType token (constructor processStart sink)
       = (Rejected TypeError, constructor processStart sink)"
  by (simp add: submitCommand_def isNotNull_def deref_def constructor_def)

text \<open>
  Claim C5. For the same reason \<^verbatim>\<open>dispose\<close> on a transport without a process calls
  \<^verbatim>\<open>kill\<close> on \<^verbatim>\<open>null\<close> and throws a TypeError.
\<close>

theorem dispose_without_process:
  "isNotNull (childProcess (constructor processStart sink))
   \<and> dispose (constructor processStart sink) = (Throw TypeError, constructor processStart sink)"
  by (simp add: dispose_def isNotNull_def deref_def constructor_def)

section \<open>Subscriptions and line handling\<close>

lemma splice1_indexOf: "x \<in> set xs \<Longrightarrow> splice1 (nat (indexOf xs x)) xs = remove1 x xs"
proof (induction xs)
  case Nil
  then show ?case by simp
next
  case (Cons y ys)
  show ?case
  proof (cases "y = x")
    case True
    then show ?thesis by (simp add: splice1_def)
  next
    case False
    with Cons.prems have in_ys: "x \<in> set ys" by simp
    from indexOf_present [OF in_ys] have "0 \<le> indexOf ys x" by simp
    with Cons.IH [OF in_ys] False show ?thesis
      by (simp add: splice1_def Let_def nat_add_distrib)
  qed
qed

lemma subscription_dispose_remove1:
  "subscription_dispose obs st = st\<lparr>subscribers := remove1 obs (subscribers st)\<rparr>"
proof (cases "obs \<in> set (subscribers st)")
  case True
  with indexOf_present [OF True] show ?thesis
    by (simp add: subscription_dispose_def splice1_indexOf)
next
  case False
  then show ?thesis
    by (simp add: subscription_dispose_def indexOf_absent remove1_idem)
qed



lemma subscription_dispose_absent:
  "obs \<notin> set (subscribers st) \<Longrightarrow> subscription_dispose obs st = st"
  by (simp add: subscription_dispose_remove1 remove1_idem)






subsection \<open>Observers that touch nothing\<close>

lemma perform_all_inert:
  "list_all (inert (subscribers st)) as \<Longrightarrow> perform_all st as = (Normal, st)"
proof (induction as)
  case Nil
  show ?case by simp
next
  case (Cons a as)
  from Cons.prems have a: "inert (subscribers st) a" and as: "list_all (inert (subscribers st)) as"
    by simp_all
  from a obtain m where m: "a = DisposeHandle m" "Client m \<notin> set (subscribers st)"
    by (cases a) (simp_all add: inert_def)
  then have "perform st a = (Normal, st)" by (simp add: subscription_dispose_absent)
  with Cons.IH [OF as] show ?case by simp
qed

lemma invoke_quiet:
  assumes "quiet cb env (subscribers st) obs"
  shows "invoke cb obs env st = (Normal, st\<lparr>notified := notified st @ [(obs, env)]\<rparr>)"
proof (cases obs)
  case ReadySubscriber
  with assms show ?thesis by (simp add: quiet_def invoke_def)
next
  case (Client n)
  let ?st1 = "st\<lparr>notified := notified st @ [(obs, env)]\<rparr>"
  from assms Client have "list_all (inert (subscribers ?st1)) (cb n env)"
    by (simp add: quiet_def)
  from perform_all_inert [OF this] Client show ?thesis by (simp add: invoke_def)
qed

lemma notifyLoop_quiet:
  assumes "k \<le> length (subscribers st)"
    and "\<forall>obs \<in> set (take k (subscribers st)). quiet cb env (subscribers st) obs"
  shows "notifyLoop cb env k st =
    (Normal, st\<lparr>notified := notified st @ map (\<lambda>obs. (obs, env)) (rev (take k (subscribers st)))\<rparr>)"
  using assms
proof (induction k arbitrary: st)
  case 0
  then show ?case by simp
next
  case (Suc k)
  let ?obs = "subscribers st ! k"
  let ?st1 = "st\<lparr>notified := notified st @ [(?obs, env)]\<rparr>"
  from Suc.prems have k: "k < length (subscribers st)" by simp
  then have take: "take (Suc k) (subscribers st) = take k (subscribers st) @ [?obs]"
    by (simp add: take_Suc_conv_app_nth)
  with Suc.prems have q: "quiet cb env (subscribers st) ?obs"
    and rest: "\<forall>obs \<in> set (take k (subscribers ?st1)). quiet cb env (subscribers ?st1) obs"
    by simp_all
  have len: "k \<le> length (subscribers ?st1)" using k by simp
  have "notifyLoop cb env (Suc k) st = notifyLoop cb env k ?st1"
    using k invoke_quiet [OF q] by simp
  also note Suc.IH [OF len rest]
  finally show ?case by (simp add: take)
qed

lemma handleLine_quiet:
  assumes "parse line = Inr env"
    and "\<forall>obs \<in> set (subscribers st). quiet cb env (subscribers st) obs"
  shows "handleLine cb parse line st =
    (Normal,
     (if eventType env = DiagnosticLogEntryProducedType
      then appendLine (message (event env)) (st\<lparr>handled := handled st @ [env]\<rparr>)
      else st\<lparr>handled := handled st @ [env]\<rparr>)
     \<lparr>notified := notified st @ map (\<lambda>obs. (obs, env)) (rev (subscribers st)),
      returned := returned st @ [env]\<rparr>)"
proof -
  let ?st1 = "if eventType env = DiagnosticLogEntryProducedType
      then appendLine (message (event env)) (st\<lparr>handled := handled st @ [env]\<rparr>)
      else st\<lparr>handled := handled st @ [env]\<rparr>"
  have subs: "subscribers ?st1 = subscribers st" by (simp add: appendLine_def)
  have 1: "length (subscribers ?st1) \<le> length (subscribers ?st1)" by simp
  have 2: "\<forall>obs \<in> set (take (length (subscribers ?st1)) (subscribers ?st1)).
    quiet cb env (subscribers ?st1) obs"
    unfolding subs using assms(2) by simp
  have "notifyLoop cb env (length (subscribers ?st1)) ?st1 =
    (Normal, ?st1\<lparr>notified := notified ?st1 @ map (\<lambda>obs. (obs, env)) (rev (subscribers st))\<rparr>)"
    using notifyLoop_quiet [OF 1 2] unfolding subs by simp
  then show ?thesis
    using assms(1) by (simp add: handleLine_def Let_def appendLine_def)
qed

text \<open>
  The concrete transports, written out.
\<close>

lemma string_of_nat_42: "string_of_nat 42 = ''42''"
  by (simp add: string_of_nat.simps [of 42] string_of_nat.simps [of 4] decimal_digits_def)

lemma launched_state:
  "launched =
     \<lparr>childProcess = Ref \<lparr>pid = 42, spawnCommand = ''dotnet'',
        spawnArgs = [''stdio'', ''--http-port'', ''5000''], cwd = ''/tmp'', stdin = [],
        killed = False\<rparr>,
      readyPromise = Pending, subscribers = [ReadySubscriber], httpPort = Num 5000,
      diagnosticChannel = [''Kernel started with pid 42.''], resolveCalls = 0, notified = [],
      handled = [], returned = []\<rparr>"
proof -
  have 1: "lookup [[''stdio'']] (args example_start) = Some [''stdio'']"
    by (simp add: lookup_def example_start_def)
  have 2: "port_flag \<notin> set [''stdio'']" by (simp add: port_flag_def)
  have 3: "\<not> 0 < indexOf [''stdio''] port_range_flag" by (simp add: port_range_flag_def)
  show ?thesis
    unfolding launched_def executor_def configureHttpArgs_push [OF 1 2 probe_5000 3]
    by (simp add: string_of_nat_5000 string_of_nat_42 port_flag_def constructor_def
        appendLine_def subscribeToKernelEvents_def example_start_def)
qed

lemma serving_state:
  "serving =
     \<lparr>childProcess = Ref \<lparr>pid = 42, spawnCommand = ''dotnet'',
        spawnArgs = [''stdio'', ''--http-port'', ''5000''], cwd = ''/tmp'', stdin = [],
        killed = False\<rparr>,
      readyPromise = Pending, subscribers = [ReadySubscriber, Client 0, Client 1],
      httpPort = Num 5000, diagnosticChannel = [''Kernel started with pid 42.''],
      resolveCalls = 0, notified = [], handled = [], returned = []\<rparr>"
  by (simp add: serving_def launched_state subscribeToKernelEvents_def)

lemma serving_twice_state:
  "serving_twice =
     \<lparr>childProcess = Ref \<lparr>pid = 42, spawnCommand = ''dotnet'',
        spawnArgs = [''stdio'', ''--http-port'', ''5000''], cwd = ''/tmp'', stdin = [],
        killed = False\<rparr>,
      readyPromise = Pending, subscribers = [ReadySubscriber, Client 0, Client 0, Client 1],
      httpPort = Num 5000, diagnosticChannel = [''Kernel started with pid 42.''],
      resolveCalls = 0, notified = [], handled = [], returned = []\<rparr>"
  by (simp add: serving_twice_def launched_state subscribeToKernelEvents_def)



text \<open>
  Claim C6, where it fails: the listener and two clients are registered and none of them
  touches the observer set; client 1, the first to be called, throws. Nothing catches the
  exception, the loop ends, and of the three observers one has been notified.
\<close>

theorem throwing_observer:
  "decode_boot_ok ''line'' = Inr boot_ok
   \<and> subscribers serving = [ReadySubscriber, Client 0, Client 1]
   \<and> throws 0 boot_ok = [] \<and> throws 1 boot_ok = [Raise (Message ''observer failed'')]
   \<and> fst (handleLine throws decode_boot_ok ''line'' serving) = Throw (Message ''observer failed'')
   \<and> notified (snd (handleLine throws decode_boot_ok ''line'' serving)) = [(Client 1, boot_ok)]
   \<and> subscribers (snd (handleLine throws decode_boot_ok ''line'' serving)) = subscribers serving"
  by (simp add: serving_state handleLine_def decode_boot_ok_def boot_ok_def appendLine_def
      invoke_def throws_def numeral_3_eq_3)

text \<open>
  Claim C6, amended. When the line decodes to an envelope and no registered observer, on
  being notified of it, changes the observer set or throws, \<^verbatim>\<open>handleLine\<close> returns
  normally, it has called the observers from the last registered to the first, each once
  with that envelope (as many calls as there are observers), and the observer set is as
  before.
\<close>

theorem handleLine_notifies_all:
  assumes "parse line = Inr env"
    and "\<forall>obs \<in> set (subscribers st). quiet cb env (subscribers st) obs"
  shows "fst (handleLine cb parse line st) = Normal
    \<and> notified (snd (handleLine cb parse line st))
        = notified st @ map (\<lambda>obs. (obs, env)) (rev (subscribers st))
    \<and> length (notified (snd (handleLine cb parse line st)))
        = length (notified st) + length (subscribers st)
    \<and> subscribers (snd (handleLine cb parse line st)) = subscribers st"
  using handleLine_quiet [where parse = parse and line = line, OF assms]
  by (simp add: appendLine_def)

theorem handleLine_notifies_all_witness:
  "decode_boot_ok ''line'' = Inr boot_ok
   \<and> list_all (quiet disposes_absent boot_ok (subscribers serving)) (subscribers serving)
   \<and> fst (handleLine disposes_absent decode_boot_ok ''line'' serving) = Normal
   \<and> notified (snd (handleLine disposes_absent decode_boot_ok ''line'' serving))
       = [(Client 1, boot_ok), (Client 0, boot_ok), (ReadySubscriber, boot_ok)]"
proof -
  have 1: "decode_boot_ok ''line'' = Inr boot_ok" by (simp add: decode_boot_ok_def)
  have 2: "\<forall>obs \<in> set (subscribers serving).
      quiet disposes_absent boot_ok (subscribers serving) obs"
    by (simp add: serving_state quiet_def disposes_absent_def inert_def boot_ok_def)
  from handleLine_notifies_all [where parse = decode_boot_ok and line = "''line''", OF 1 2] 1 2
  show ?thesis
    by (simp add: serving_state list_all_iff)
qed

subsection \<open>Observers that dispose their own handle\<close>



lemma count_list_le_set:
  assumes "\<forall>y. count_list xs y \<le> count_list ys y"
  shows "set xs \<subseteq> set ys"
proof
  fix x
  assume "x \<in> set xs"
  then have "count_list xs x \<noteq> 0" by (simp add: count_list_0_iff)
  with assms have "count_list ys x \<noteq> 0" by (metis le_zero_eq)
  then show "x \<in> set ys" by (simp add: count_list_0_iff)
qed








lemma considerate_mono:
  assumes "considerate cb env subs obs" and "\<forall>y. count_list subs' y \<le> count_list subs y"
  shows "considerate cb env subs' obs"
proof (cases obs)
  case ReadySubscriber
  then show ?thesis by (simp add: considerate_def)
next
  case (Client n)
  have sub: "set subs' \<subseteq> set subs" by (rule count_list_le_set [OF assms(2)])
  from assms(1) Client have 1: "list_all (own_or_absent subs n) (cb n env)"
    and 2: "count_list subs (Client n) \<le> 1
      \<or> length (filter (\<lambda>a. a = DisposeHandle n) (cb n env)) \<le> 1"
    by (simp_all add: considerate_def)
  have "own_or_absent subs' n a" if "own_or_absent subs n a" for a
    using that sub by (cases a) (auto simp: own_or_absent_def)
  with 1 have 3: "list_all (own_or_absent subs' n) (cb n env)"
    by (simp add: list_all_iff)
  from 2 assms(2) have 4: "count_list subs' (Client n) \<le> 1
      \<or> length (filter (\<lambda>a. a = DisposeHandle n) (cb n env)) \<le> 1"
    by (metis le_trans)
  from 3 4 Client show ?thesis by (simp add: considerate_def)
qed







text \<open>Observers that are considerate towards every registered observer are orderly.\<close>

lemma orderly_all:
  assumes "\<forall>obs \<in> set subs. considerate cb env subs obs"
  shows "orderly cb env subs"
proof -
  have "considerate cb env (take (Suc k) subs) (subs ! k)" if "k < length subs" for k
  proof -
    from that assms have c: "considerate cb env subs (subs ! k)" by simp
    have "count_list (take (Suc k) subs) y \<le> count_list subs y" for y
    proof -
      have "count_list (take (Suc k) subs @ drop (Suc k) subs) y
        = count_list (take (Suc k) subs) y + count_list (drop (Suc k) subs) y"
        by (rule count_list_append)
      then show ?thesis by simp
    qed
    then have "\<forall>y. count_list (take (Suc k) subs) y \<le> count_list subs y" by blast
    from considerate_mono [OF c this] show ?thesis .
  qed
  then show ?thesis by (simp add: orderly_def list_all_iff)
qed







text \<open>
  An observer whose callback is registered twice and which disposes its handle twice is
  not considerate towards itself: the second disposal removes a registration that has not
  been called, and client 1, called already, is called again in its place.
\<close>

lemma disposing_two_registrations:
  "subscribers serving_twice = [ReadySubscriber, Client 0, Client 0, Client 1]
   \<and> disposes_self_twice 0 boot_ok = [DisposeHandle 0, DisposeHandle 0]
   \<and> notified (snd (handleLine disposes_self_twice decode_boot_ok ''line'' serving_twice))
       = [(Client 1, boot_ok), (Client 0, boot_ok), (Client 1, boot_ok),
          (ReadySubscriber, boot_ok)]"
  by (simp add: serving_twice_state handleLine_def decode_boot_ok_def
      boot_ok_def appendLine_def invoke_def disposes_self_twice_def
      subscription_dispose_remove1 numeral_eq_Suc)



subsection \<open>An observer that disposes its own handle is not called again\<close>








subsection \<open>An observer that is not registered is not called\<close>















section \<open>The readiness promise\<close>









































end
